theory Spec2Isabelle
  imports Main "HOL-Library.Word" "HOL-Library.Sublist"
begin

section \<open>Strings\<close>

text \<open>
  A JavaScript string is a sequence of 16-bit code units. Literals of the source are
  written \<open>str ''...''\<close>.
\<close>

type_synonym jschar = "16 word"
type_synonym jsstring = "jschar list"

definition str :: "string \<Rightarrow> jsstring" where
  "str s = map of_char s"

text \<open>Truthiness of a string value: every string but the empty one.\<close>

definition truthy :: "jsstring option \<Rightarrow> bool" where
  "truthy v = (case v of None \<Rightarrow> False | Some s \<Rightarrow> s \<noteq> [])"

section \<open>The data model (\<open>index.tsx\<close>, lines 5 to 15)\<close>

text \<open>
  \<open>nextId: string | null\<close> and the optional \<open>icon\<close> are options: \<open>None\<close> is
  \<open>null\<close> or an absent property, which the code never tells apart. The field names
  \<open>text\<close> and \<open>id\<close> of the source carry a prime here.
\<close>

record Answer =
  text' :: jsstring
  nextId :: "jsstring option"
  icon :: "jsstring option"

record TroubleshootingStepData =
  id' :: jsstring
  question :: jsstring
  answers :: "Answer list"

text \<open>
  \<open>Record<string, TroubleshootingStepData>\<close>: the own properties of a plain object, in
  enumeration order. Keys of an object are distinct.
\<close>

type_synonym TroubleshootingData = "(jsstring \<times> TroubleshootingStepData) list"

definition valid_graph :: "TroubleshootingData \<Rightarrow> bool" where
  "valid_graph g = distinct (map fst g)"

definition mk_answer :: "string \<Rightarrow> string option \<Rightarrow> string \<Rightarrow> Answer" where
  "mk_answer t n i = \<lparr>text' = str t, nextId = map_option str n, icon = Some (str i)\<rparr>"

definition mk_step :: "string \<Rightarrow> string \<Rightarrow> Answer list \<Rightarrow> jsstring \<times> TroubleshootingStepData" where
  "mk_step k q as = (str k, \<lparr>id' = str k, question = str q, answers = as\<rparr>)"

definition initialTroubleshootingData :: TroubleshootingData where
  "initialTroubleshootingData =
    [mk_step ''start'' ''What is the problem with the process?''
       [mk_answer ''It's not starting'' (Some ''not-starting'') ''Play'',
        mk_answer ''It's running slow'' (Some ''running-slow'') ''Gauge'',
        mk_answer ''It crashed'' (Some ''crashed'') ''XMarkCircle''],
     mk_step ''not-starting'' ''Have you checked the logs for startup errors?''
       [mk_answer ''Yes, there are errors'' (Some ''log-errors'') ''Document'',
        mk_answer ''No, where are the logs?'' (Some ''find-logs'') ''QuestionMark'',
        mk_answer ''There are no logs at all'' (Some ''no-logs'') ''ExclamationMark''],
     mk_step ''running-slow'' ''Is the CPU usage high?''
       [mk_answer ''Yes, CPU is at 100%'' (Some ''high-cpu'') ''ComputerChip'',
        mk_answer ''No, CPU is normal'' (Some ''normal-cpu'') ''Leaf''],
     mk_step ''crashed'' ''Was there a crash report generated?''
       [mk_answer ''Yes, I have the report'' (Some ''submit-report'') ''Upload'',
        mk_answer ''No, it just disappeared'' (Some ''check-system-logs'') ''Terminal''],
     mk_step ''log-errors'' ''Common errors include 'Permission Denied' or 'Port in Use'.''
       [mk_answer ''Solution: Check file permissions or kill the process on that port.''
          None ''Wrench''],
     mk_step ''find-logs'' ''Logs are usually in /var/log/ or the application's own directory.''
       [mk_answer ''Okay, I'll check there.'' None ''Check''],
     mk_step ''no-logs''
       ''This might indicate a problem with file permissions for the log directory.''
       [mk_answer ''Solution: Verify the process has write access to its log location.''
          None ''Wrench''],
     mk_step ''high-cpu'' ''This could be an infinite loop or heavy processing.''
       [mk_answer ''Solution: Use a profiler to inspect the process.'' None ''Wrench''],
     mk_step ''normal-cpu'' ''The bottleneck might be I/O (disk or network).''
       [mk_answer ''Solution: Check disk activity and network requests.'' None ''Wrench''],
     mk_step ''submit-report'' ''Please submit the crash report to the development team.''
       [mk_answer ''Done!'' None ''Check''],
     mk_step ''check-system-logs''
       ''Check the main system logs for any related error messages.''
       [mk_answer ''Okay, I'll check system logs.'' None ''Check'']]"

section \<open>Property access on the graph object\<close>

text \<open>
  \<open>troubleshootingData[stepId]\<close> is a property read on a plain object (an object literal,
  or what \<open>JSON.parse\<close> built): an own property if there is one, else the property of
  that name on \<open>Object.prototype\<close>, else \<open>undefined\<close>. The inherited values are
  functions (and, for \<open>__proto__\<close>, the prototype object itself): all truthy, none with
  a \<open>question\<close> or an \<open>answers\<close> property.
\<close>

datatype 'a property = Undefined | Own 'a | Inherited

definition Object_prototype_keys :: "jsstring list" where
  "Object_prototype_keys = map str
    [''constructor'', ''__defineGetter__'', ''__defineSetter__'', ''hasOwnProperty'',
     ''__lookupGetter__'', ''__lookupSetter__'', ''isPrototypeOf'', ''propertyIsEnumerable'',
     ''toString'', ''valueOf'', ''__proto__'', ''toLocaleString'']"

definition get_property :: "(jsstring \<times> 'a) list \<Rightarrow> jsstring \<Rightarrow> 'a property" where
  "get_property obj k =
     (case map_of obj k of
        Some v \<Rightarrow> Own v
      | None \<Rightarrow> if k \<in> set Object_prototype_keys then Inherited else Undefined)"

section \<open>The traversal engine (\<open>TroubleshootingStep\<close>, lines 189 to 237)\<close>

datatype js_error = TypeError | SyntaxError | StorageError

text \<open>
  \<open>text.replace(/^Solution: /, "")\<close>: the pattern is anchored at the start and not
  global, so it matches at most once, at index 0.
\<close>

definition replace_prefix :: "jsstring \<Rightarrow> jsstring \<Rightarrow> jsstring \<Rightarrow> jsstring" where
  "replace_prefix pat rep s =
     (if take (length pat) s = pat then rep @ drop (length pat) s else s)"

text \<open>
  The action panel of one answer: \<open>Action.Push\<close> of a new \<open>TroubleshootingStep\<close> frame
  for \<open>nextId\<close>, or \<open>Action.CopyToClipboard\<close> with its content.
\<close>

datatype action = Push jsstring | CopyToClipboard jsstring

definition selectAnswer :: "Answer \<Rightarrow> action" where
  "selectAnswer answer =
     (if truthy (nextId answer) then Push (the (nextId answer))
      else CopyToClipboard (replace_prefix (str ''Solution: '') [] (text' answer)))"

text \<open>
  \<open>Icon\<close> is the enum object of the host API, a plain object whose own properties are
  the icon names; it is not part of the repository. Its own properties are the
  parameter \<open>Icon\<close> (their values are non-empty strings, hence truthy), and \<open>chevron\<close>
  is the value of \<open>Icon.ChevronRight\<close>. \<open>Icon[answer.icon]\<close> is a property read as
  above: for a name that is not an own property but is one of \<open>Object.prototype\<close>, it
  gives the inherited value, which is truthy, and \<open>||\<close> keeps it.
\<close>

datatype 'sym icon_value = Symbol 'sym | InheritedProperty

definition symbolFor ::
  "(jsstring \<times> 'sym) list \<Rightarrow> 'sym \<Rightarrow> jsstring option \<Rightarrow> 'sym icon_value" where
  "symbolFor Icon chevron name =
     (if truthy name then
        (case get_property Icon (the name) of
           Own s \<Rightarrow> Symbol s
         | Inherited \<Rightarrow> InheritedProperty
         | Undefined \<Rightarrow> Symbol chevron)
      else Symbol chevron)"

record 'sym item =
  title :: jsstring
  item_icon :: "'sym icon_value"
  actions :: action

datatype 'sym view =
    LoadingList
  | EndOfFlow
  | InvalidFlowData
  | StepList jsstring "'sym item list"

definition render_answer :: "(jsstring \<times> 'sym) list \<Rightarrow> 'sym \<Rightarrow> Answer \<Rightarrow> 'sym item" where
  "render_answer Icon chevron answer =
     \<lparr>title = text' answer, item_icon = symbolFor Icon chevron (icon answer),
      actions = selectAnswer answer\<rparr>"

text \<open>
  A step that is an inherited property has no \<open>answers\<close>: \<open>currentStep.answers.map\<close>
  raises a TypeError.
\<close>

definition TroubleshootingStep ::
  "(jsstring \<times> 'sym) list \<Rightarrow> 'sym \<Rightarrow> jsstring \<Rightarrow> TroubleshootingData \<Rightarrow> bool
     \<Rightarrow> js_error + 'sym view" where
  "TroubleshootingStep Icon chevron stepId troubleshootingData isLoading =
     (let currentStep = get_property troubleshootingData stepId in
      if isLoading then Inr LoadingList
      else case currentStep of
        Undefined \<Rightarrow> Inr EndOfFlow
      | Inherited \<Rightarrow> Inl TypeError
      | Own step \<Rightarrow>
          Inr (StepList (question step) (map (render_answer Icon chevron) (answers step))))"

definition FlowView ::
  "(jsstring \<times> 'sym) list \<Rightarrow> 'sym \<Rightarrow> bool \<Rightarrow> TroubleshootingData \<Rightarrow> js_error + 'sym view" where
  "FlowView Icon chevron isLoading troubleshootingData =
     (if get_property troubleshootingData (str ''start'') = Undefined \<and> \<not> isLoading
      then Inr InvalidFlowData
      else TroubleshootingStep Icon chevron (str ''start'') troubleshootingData isLoading)"

section \<open>JSON values and \<open>JSON.stringify\<close>\<close>

text \<open>
  The values \<open>JSON.parse\<close> builds and \<open>JSON.stringify\<close> prints. An object is the
  list of its own properties in enumeration order. A number is kept as the text of its
  literal: its value as a double, and the text JavaScript prints for that double, are not
  part of this model (no value of the graph's type holds a number).
\<close>

datatype json =
    JNull
  | JBool bool
  | JNumber jsstring
  | JString jsstring
  | JArray "json list"
  | JObject "(jsstring \<times> json) list"

text \<open>
  Code units are written as numbers: \<open>0x22\<close> is the double quote, \<open>0x5C\<close> the
  backslash, \<open>0x2F\<close> the slash, \<open>0x5B\<close> and \<open>0x5D\<close> the brackets, \<open>0x7B\<close> and
  \<open>0x7D\<close> the braces, \<open>0x2C\<close> the comma, \<open>0x3A\<close> the colon, \<open>0x20\<close> the space,
  \<open>0x0A\<close> the line feed, \<open>0x30\<close> to \<open>0x39\<close> the digits.

  \<open>QuoteJSONString\<close>: the two-character escapes for backspace, tab, line feed, form
  feed, carriage return, quote and backslash; \<open>\u\<close> and four lower-case hexadecimal
  digits for the other code units below \<open>0x20\<close> and for a surrogate that is not part
  of a pair; every other code unit as it is.
\<close>

definition hex_digit :: "nat \<Rightarrow> jschar" where
  "hex_digit d = (if d < 10 then of_nat (0x30 + d) else of_nat (0x61 + (d - 10)))"

definition UnicodeEscape :: "jschar \<Rightarrow> jsstring" where
  "UnicodeEscape c =
     (let n = unat c in
      [0x5C, 0x75, hex_digit (n div 4096), hex_digit (n div 256 mod 16),
       hex_digit (n div 16 mod 16), hex_digit (n mod 16)])"

definition is_leading_surrogate :: "jschar \<Rightarrow> bool" where
  "is_leading_surrogate c = (0xD800 \<le> c \<and> c \<le> 0xDBFF)"

definition is_trailing_surrogate :: "jschar \<Rightarrow> bool" where
  "is_trailing_surrogate c = (0xDC00 \<le> c \<and> c \<le> 0xDFFF)"

definition quote_unit :: "jschar \<Rightarrow> jsstring" where
  "quote_unit c =
     (if c = 0x08 then [0x5C, 0x62]
      else if c = 0x09 then [0x5C, 0x74]
      else if c = 0x0A then [0x5C, 0x6E]
      else if c = 0x0C then [0x5C, 0x66]
      else if c = 0x0D then [0x5C, 0x72]
      else if c = 0x22 then [0x5C, 0x22]
      else if c = 0x5C then [0x5C, 0x5C]
      else if c < 0x20 \<or> is_leading_surrogate c \<or> is_trailing_surrogate c then UnicodeEscape c
      else [c])"

fun quote_units :: "jsstring \<Rightarrow> jsstring" where
  "quote_units [] = []"
| "quote_units [c] = quote_unit c"
| "quote_units (c # d # cs) =
     (if is_leading_surrogate c \<and> is_trailing_surrogate d then c # d # quote_units cs
      else quote_unit c @ quote_units (d # cs))"

definition QuoteJSONString :: "jsstring \<Rightarrow> jsstring" where
  "QuoteJSONString s = [0x22] @ quote_units s @ [0x22]"

fun join :: "jsstring \<Rightarrow> jsstring list \<Rightarrow> jsstring" where
  "join sep [] = []"
| "join sep [x] = x"
| "join sep (x # y # ys) = x @ sep @ join sep (y # ys)"

text \<open>
  \<open>SerializeJSONProperty\<close> with \<open>SerializeJSONObject\<close> and \<open>SerializeJSONArray\<close>:
  \<open>gap\<close> is empty for \<open>JSON.stringify(v)\<close> and two spaces for
  \<open>JSON.stringify(v, null, 2)\<close>.
\<close>

fun SerializeJSONProperty :: "jsstring \<Rightarrow> jsstring \<Rightarrow> json \<Rightarrow> jsstring" where
  "SerializeJSONProperty gap indent JNull = str ''null''"
| "SerializeJSONProperty gap indent (JBool b) = (if b then str ''true'' else str ''false'')"
| "SerializeJSONProperty gap indent (JNumber n) = n"
| "SerializeJSONProperty gap indent (JString s) = QuoteJSONString s"
| "SerializeJSONProperty gap indent (JArray vs) =
     (let stepback = indent; indent = indent @ gap;
          partial = map (SerializeJSONProperty gap indent) vs in
      if partial = [] then str ''[]''
      else if gap = [] then [0x5B] @ join [0x2C] partial @ [0x5D]
      else [0x5B, 0x0A] @ indent @ join ([0x2C, 0x0A] @ indent) partial
             @ [0x0A] @ stepback @ [0x5D])"
| "SerializeJSONProperty gap indent (JObject kvs) =
     (let stepback = indent; indent = indent @ gap;
          partial = map (\<lambda>kv. QuoteJSONString (fst kv) @ [0x3A]
                      @ (if gap = [] then [] else [0x20])
                      @ SerializeJSONProperty gap indent (snd kv)) kvs in
      if partial = [] then str ''{}''
      else if gap = [] then [0x7B] @ join [0x2C] partial @ [0x7D]
      else [0x7B, 0x0A] @ indent @ join ([0x2C, 0x0A] @ indent) partial
             @ [0x0A] @ stepback @ [0x7D])"

definition JSON_stringify :: "json \<Rightarrow> jsstring" where
  "JSON_stringify v = SerializeJSONProperty [] [] v"

definition JSON_stringify_indent2 :: "json \<Rightarrow> jsstring" where
  "JSON_stringify_indent2 v = SerializeJSONProperty (str ''  '') [] v"

section \<open>\<open>JSON.parse\<close>\<close>

text \<open>
  A recursive-descent reading of the JSON grammar on code units. The result is the value
  and the rest of the input; \<open>None\<close> is the SyntaxError. A property that occurs twice
  keeps its first position and takes the later value. The tests \<open>length r < length s\<close>
  in \<open>parse_elements\<close> and \<open>parse_members\<close> carry the termination argument; they
  hold whenever the parser returns (lemma \<open>parse_consumes\<close>).

  Two things are not modelled. The members of an object are kept in the order of the
  text, where JavaScript enumerates the keys that are array indices first, in ascending
  order; and a number is kept as its literal, where JavaScript builds a double. Which
  texts are accepted is not affected. The text \<open>JSON.stringify\<close> prints for an object
  lists its keys in enumeration order already, and a graph holds no number.
\<close>

definition is_ws :: "jschar \<Rightarrow> bool" where
  "is_ws c = (c = 0x20 \<or> c = 0x09 \<or> c = 0x0A \<or> c = 0x0D)"

definition skip_ws :: "jsstring \<Rightarrow> jsstring" where
  "skip_ws s = dropWhile is_ws s"

definition hex_value :: "jschar \<Rightarrow> nat option" where
  "hex_value c =
     (let n = unat c in
      if 0x30 \<le> n \<and> n \<le> 0x39 then Some (n - 0x30)
      else if 0x61 \<le> n \<and> n \<le> 0x66 then Some (n - 0x61 + 10)
      else if 0x41 \<le> n \<and> n \<le> 0x46 then Some (n - 0x41 + 10)
      else None)"

definition parse_hex4 :: "jsstring \<Rightarrow> jschar option" where
  "parse_hex4 s =
     (case map hex_value s of
        [Some a, Some b, Some c, Some d] \<Rightarrow> Some (of_nat (((a * 16 + b) * 16 + c) * 16 + d))
      | _ \<Rightarrow> None)"

definition simple_escape :: "jschar \<Rightarrow> jschar option" where
  "simple_escape e =
     (if e = 0x22 then Some 0x22
      else if e = 0x5C then Some 0x5C
      else if e = 0x2F then Some 0x2F
      else if e = 0x62 then Some 0x08
      else if e = 0x66 then Some 0x0C
      else if e = 0x6E then Some 0x0A
      else if e = 0x72 then Some 0x0D
      else if e = 0x74 then Some 0x09
      else None)"

fun parse_string_chars :: "jsstring \<Rightarrow> jsstring \<Rightarrow> (jsstring \<times> jsstring) option" where
  "parse_string_chars acc [] = None"
| "parse_string_chars acc (c # cs) =
     (if c = 0x22 then Some (acc, cs)
      else if c = 0x5C then
        (case cs of
           [] \<Rightarrow> None
         | e # es \<Rightarrow>
             if e = 0x75 then
               (case parse_hex4 (take 4 es) of
                  None \<Rightarrow> None
                | Some u \<Rightarrow> parse_string_chars (acc @ [u]) (drop 4 es))
             else
               (case simple_escape e of
                  None \<Rightarrow> None
                | Some u \<Rightarrow> parse_string_chars (acc @ [u]) es))
      else if c < 0x20 then None
      else parse_string_chars (acc @ [c]) cs)"

definition is_digit :: "jschar \<Rightarrow> bool" where
  "is_digit c = (0x30 \<le> c \<and> c \<le> 0x39)"

definition parse_digits :: "jsstring \<Rightarrow> (jsstring \<times> jsstring) option" where
  "parse_digits s =
     (if takeWhile is_digit s = [] then None
      else Some (takeWhile is_digit s, dropWhile is_digit s))"

definition parse_int_part :: "jsstring \<Rightarrow> (jsstring \<times> jsstring) option" where
  "parse_int_part s =
     (case s of
        [] \<Rightarrow> None
      | c # cs \<Rightarrow> if c = 0x30 then Some ([c], cs) else parse_digits s)"

definition parse_fraction :: "jsstring \<Rightarrow> (jsstring \<times> jsstring) option" where
  "parse_fraction s =
     (case s of
        [] \<Rightarrow> Some ([], s)
      | c # cs \<Rightarrow>
          if c = 0x2E then map_option (apfst ((#) c)) (parse_digits cs) else Some ([], s))"

definition parse_exponent :: "jsstring \<Rightarrow> (jsstring \<times> jsstring) option" where
  "parse_exponent s =
     (case s of
        [] \<Rightarrow> Some ([], s)
      | c # cs \<Rightarrow>
          if c = 0x65 \<or> c = 0x45 then
            (case cs of
               [] \<Rightarrow> None
             | d # ds \<Rightarrow>
                 if d = 0x2B \<or> d = 0x2D then map_option (apfst (\<lambda>x. c # d # x)) (parse_digits ds)
                 else map_option (apfst ((#) c)) (parse_digits cs))
          else Some ([], s))"

definition parse_unsigned :: "jsstring \<Rightarrow> (jsstring \<times> jsstring) option" where
  "parse_unsigned s =
     (case parse_int_part s of
        None \<Rightarrow> None
      | Some (i, r1) \<Rightarrow>
          (case parse_fraction r1 of
             None \<Rightarrow> None
           | Some (f, r2) \<Rightarrow>
               (case parse_exponent r2 of
                  None \<Rightarrow> None
                | Some (e, r3) \<Rightarrow> Some (i @ f @ e, r3))))"

definition parse_number :: "jsstring \<Rightarrow> (jsstring \<times> jsstring) option" where
  "parse_number s =
     (case s of
        [] \<Rightarrow> None
      | c # cs \<Rightarrow>
          if c = 0x2D then map_option (apfst ((#) c)) (parse_unsigned cs)
          else parse_unsigned s)"

definition parse_scalar :: "jsstring \<Rightarrow> (json \<times> jsstring) option" where
  "parse_scalar s =
     (if take 4 s = str ''null'' then Some (JNull, drop 4 s)
      else if take 4 s = str ''true'' then Some (JBool True, drop 4 s)
      else if take 5 s = str ''false'' then Some (JBool False, drop 5 s)
      else map_option (apfst JNumber) (parse_number s))"

definition obj_set :: "jsstring \<Rightarrow> json \<Rightarrow> (jsstring \<times> json) list \<Rightarrow> (jsstring \<times> json) list" where
  "obj_set k v kvs =
     (if k \<in> fst ` set kvs then map (\<lambda>kv. if fst kv = k then (k, v) else kv) kvs
      else kvs @ [(k, v)])"

lemma skip_ws_length: "length (skip_ws s) \<le> length s"
  by (simp add: skip_ws_def length_dropWhile_le)

lemma skip_ws_Cons_length: "skip_ws s = c # cs \<Longrightarrow> length cs < length s"
  using skip_ws_length [of s] by simp

lemma parse_string_chars_length:
  "parse_string_chars acc s = Some (k, r) \<Longrightarrow> length r < length s"
proof (induction "length s" arbitrary: acc s rule: less_induct)
  case less
  show ?case
  proof (cases s)
    case Nil
    with less.prems show ?thesis by simp
  next
    case (Cons c cs)
    consider (quote) "c = 0x22" | (escape) "c \<noteq> 0x22" "c = 0x5C"
      | (literal) "c \<noteq> 0x22" "c \<noteq> 0x5C"
      by blast
    then show ?thesis
    proof cases
      case quote
      with less.prems Cons show ?thesis by simp
    next
      case literal
      with less.prems Cons have p: "parse_string_chars (acc @ [c]) cs = Some (k, r)"
        by (simp split: if_splits)
      from less.hyps [of cs "acc @ [c]"] p Cons show ?thesis by simp
    next
      case escape
      show ?thesis
      proof (cases cs)
        case Nil
        with less.prems Cons escape show ?thesis by simp
      next
        case (Cons e es)
        note cs = Cons
        show ?thesis
        proof (cases "e = 0x75")
          case True
          with less.prems \<open>s = c # cs\<close> cs escape
          obtain u where p: "parse_string_chars (acc @ [u]) (drop 4 es) = Some (k, r)"
            by (simp split: option.splits)
          have "length (drop 4 es) < length s"
            using \<open>s = c # cs\<close> cs by simp
          from less.hyps [OF this p] \<open>s = c # cs\<close> cs show ?thesis by simp
        next
          case False
          with less.prems \<open>s = c # cs\<close> cs escape
          obtain u where p: "parse_string_chars (acc @ [u]) es = Some (k, r)"
            by (simp split: option.splits)
          have "length es < length s"
            using \<open>s = c # cs\<close> cs by simp
          from less.hyps [OF this p] \<open>s = c # cs\<close> cs show ?thesis by simp
        qed
      qed
    qed
  qed
qed

function parse_value :: "jsstring \<Rightarrow> (json \<times> jsstring) option"
  and parse_elements :: "json list \<Rightarrow> jsstring \<Rightarrow> (json list \<times> jsstring) option"
  and parse_members ::
    "(jsstring \<times> json) list \<Rightarrow> jsstring \<Rightarrow> ((jsstring \<times> json) list \<times> jsstring) option"
where
  "parse_value s =
     (case skip_ws s of
        [] \<Rightarrow> None
      | c # cs \<Rightarrow>
          if c = 0x7B then
            (case skip_ws cs of
               [] \<Rightarrow> None
             | d # ds \<Rightarrow>
                 if d = 0x7D then Some (JObject [], ds)
                 else map_option (apfst JObject) (parse_members [] cs))
          else if c = 0x5B then
            (case skip_ws cs of
               [] \<Rightarrow> None
             | d # ds \<Rightarrow>
                 if d = 0x5D then Some (JArray [], ds)
                 else map_option (apfst JArray) (parse_elements [] cs))
          else if c = 0x22 then map_option (apfst JString) (parse_string_chars [] cs)
          else parse_scalar (c # cs))"
| "parse_elements acc s =
     (case parse_value s of
        None \<Rightarrow> None
      | Some (v, r) \<Rightarrow>
          if length r < length s then
            (case skip_ws r of
               [] \<Rightarrow> None
             | c # cs \<Rightarrow>
                 if c = 0x2C then parse_elements (acc @ [v]) cs
                 else if c = 0x5D then Some (acc @ [v], cs)
                 else None)
          else None)"
| "parse_members acc s =
     (case skip_ws s of
        [] \<Rightarrow> None
      | q # cs \<Rightarrow>
          if q = 0x22 then
            (case parse_string_chars [] cs of
               None \<Rightarrow> None
             | Some (k, r) \<Rightarrow>
                 (case skip_ws r of
                    [] \<Rightarrow> None
                  | d # ds \<Rightarrow>
                      if d = 0x3A then
                        (case parse_value ds of
                           None \<Rightarrow> None
                         | Some (v, r') \<Rightarrow>
                             if length r' < length ds then
                               (case skip_ws r' of
                                  [] \<Rightarrow> None
                                | e # es \<Rightarrow>
                                    if e = 0x2C then parse_members (obj_set k v acc) es
                                    else if e = 0x7D then Some (obj_set k v acc, es)
                                    else None)
                             else None)
                      else None))
          else None)"
  by pat_completeness (simp_all only: sum.inject prod.inject sum.distinct)
termination
proof (relation "measure (\<lambda>x. case x of
          Inl s \<Rightarrow> 2 * length s
        | Inr (Inl (acc, s)) \<Rightarrow> 2 * length s + 1
        | Inr (Inr (acc, s)) \<Rightarrow> 2 * length s + 1)", goal_cases)
  case 1
  then show ?case by simp
next
  case (2 s c cs d ds)
  then show ?case using skip_ws_Cons_length [of s c cs] by simp
next
  case (3 s c cs d ds)
  then show ?case using skip_ws_Cons_length [of s c cs] by simp
next
  case (4 acc s)
  then show ?case by simp
next
  case (5 acc s x v r c cs)
  then show ?case using skip_ws_Cons_length [of r c cs] by simp
next
  case (6 acc s q cs x k r d ds)
  then show ?case
    using skip_ws_Cons_length [of s q cs] parse_string_chars_length [of "[]" cs k r]
      skip_ws_Cons_length [of r d ds] by simp
next
  case (7 acc s q cs x k r d ds y v r' e es)
  then show ?case
    using skip_ws_Cons_length [of s q cs] parse_string_chars_length [of "[]" cs k r]
      skip_ws_Cons_length [of r d ds] skip_ws_Cons_length [of r' e es] by simp
qed

definition JSON_parse :: "jsstring \<Rightarrow> js_error + json" where
  "JSON_parse text =
     (case parse_value text of
        None \<Rightarrow> Inl SyntaxError
      | Some (v, r) \<Rightarrow> if skip_ws r = [] then Inr v else Inl SyntaxError)"

section \<open>Values that the serializer and the parser agree on\<close>

text \<open>
  \<open>plain\<close> holds of a value without numbers whose objects have distinct keys, as every
  object has. \<open>newline_indent\<close> is the line break and indentation the serializer puts
  before an element, and \<open>value_start\<close> holds of the first code unit of a serialized
  plain value.
\<close>

fun plain :: "json \<Rightarrow> bool" where
  "plain JNull = True"
| "plain (JBool b) = True"
| "plain (JNumber n) = False"
| "plain (JString s) = True"
| "plain (JArray vs) = list_all plain vs"
| "plain (JObject kvs) = (distinct (map fst kvs) \<and> list_all (\<lambda>kv. plain (snd kv)) kvs)"

definition newline_indent :: "jsstring \<Rightarrow> jsstring \<Rightarrow> jsstring" where
  "newline_indent gap indent = (if gap = [] then [] else 0x0A # indent)"

definition value_start :: "jschar \<Rightarrow> bool" where
  "value_start c = (c = 0x7B \<or> c = 0x5B \<or> c = 0x22 \<or> c = 0x6E \<or> c = 0x74 \<or> c = 0x66)"

section \<open>Graphs as runtime values\<close>

text \<open>
  The object a value of type \<open>TroubleshootingData\<close> is at run time. An absent \<open>icon\<close> is
  an absent property; \<open>nextId\<close> is \<open>null\<close> or a string.
\<close>

definition json_of_answer :: "Answer \<Rightarrow> json" where
  "json_of_answer a =
     JObject ([(str ''text'', JString (text' a)),
               (str ''nextId'', case nextId a of None \<Rightarrow> JNull | Some n \<Rightarrow> JString n)]
              @ (case icon a of None \<Rightarrow> [] | Some i \<Rightarrow> [(str ''icon'', JString i)]))"

definition json_of_step :: "TroubleshootingStepData \<Rightarrow> json" where
  "json_of_step s =
     JObject [(str ''id'', JString (id' s)), (str ''question'', JString (question s)),
              (str ''answers'', JArray (map json_of_answer (answers s)))]"

definition json_of_graph :: "TroubleshootingData \<Rightarrow> json" where
  "json_of_graph g = JObject (map (\<lambda>kv. (fst kv, json_of_step (snd kv))) g)"

section \<open>The command's state (\<open>Command\<close>, lines 69 to 102)\<close>

text \<open>
  The host supplies \<open>LocalStorage\<close>, \<open>showToast\<close> and the navigation stack. Storage is
  a map from item names to strings; whether a storage call succeeds is the parameter
  \<open>ok\<close> of \<open>getItem\<close> and \<open>setItem\<close> (a failed call rejects and leaves the storage as
  it was). The toasts shown are collected in \<open>toasts\<close>, the calls of \<open>pop\<close> are counted
  in \<open>popped\<close>, and \<open>jsonData\<close> is the current content of the editor's text area.
  The state \<open>troubleshootingData\<close> holds whatever value was stored in it: the cast
  \<open>as TroubleshootingData\<close> checks nothing.
\<close>

datatype toast_style = Success | Failure

record toast =
  style :: toast_style
  toast_title :: jsstring
  message :: jsstring

record app =
  activeTab :: jsstring
  isLoading :: bool
  troubleshootingData :: json
  LocalStorage :: "jsstring \<rightharpoonup> jsstring"
  toasts :: "toast list"
  popped :: nat
  jsonData :: jsstring

definition getItem :: "bool \<Rightarrow> (jsstring \<rightharpoonup> jsstring) \<Rightarrow> jsstring \<Rightarrow> js_error + jsstring option" where
  "getItem ok store key = (if ok then Inr (store key) else Inl StorageError)"

definition setItem ::
  "bool \<Rightarrow> (jsstring \<rightharpoonup> jsstring) \<Rightarrow> jsstring \<Rightarrow> jsstring \<Rightarrow> js_error + (jsstring \<rightharpoonup> jsstring)" where
  "setItem ok store key v = (if ok then Inr (store(key \<mapsto> v)) else Inl StorageError)"

definition showToast :: "toast_style \<Rightarrow> string \<Rightarrow> string \<Rightarrow> app \<Rightarrow> app" where
  "showToast s t m st =
     st\<lparr>toasts := toasts st @ [\<lparr>style = s, toast_title = str t, message = str m\<rparr>]\<rparr>"

definition pop :: "app \<Rightarrow> app" where
  "pop st = st\<lparr>popped := popped st + 1\<rparr>"

text \<open>The state of \<open>Command\<close> when it mounts, over a given storage.\<close>

definition initial_app :: "(jsstring \<rightharpoonup> jsstring) \<Rightarrow> app" where
  "initial_app store =
     \<lparr>activeTab = str ''flow'', isLoading = True, troubleshootingData = JObject [],
      LocalStorage = store, toasts = [], popped = 0, jsonData = []\<rparr>"

text \<open>
  \<open>loadData\<close>: the \<open>try\<close> block gives the new state or the error thrown, the \<open>catch\<close>
  block shows the toast and falls back to the default graph, \<open>finally\<close> clears the
  loading flag.
\<close>

definition loadData_try :: "bool \<Rightarrow> app \<Rightarrow> js_error + app" where
  "loadData_try ok st =
     (case getItem ok (LocalStorage st) (str ''troubleshootingData'') of
        Inl e \<Rightarrow> Inl e
      | Inr storedData \<Rightarrow>
          if truthy storedData then
            (case JSON_parse (the storedData) of
               Inl e \<Rightarrow> Inl e
             | Inr v \<Rightarrow> Inr (st\<lparr>troubleshootingData := v\<rparr>))
          else Inr (st\<lparr>troubleshootingData := json_of_graph initialTroubleshootingData\<rparr>))"

definition loadData :: "bool \<Rightarrow> app \<Rightarrow> app" where
  "loadData ok st =
     (let st' =
        (case loadData_try ok st of
           Inr st' \<Rightarrow> st'
         | Inl e \<Rightarrow>
             (showToast Failure ''Could not load custom flow'' ''Using default flow.'' st)
               \<lparr>troubleshootingData := json_of_graph initialTroubleshootingData\<rparr>)
      in st'\<lparr>isLoading := False\<rparr>)"

text \<open>
  \<open>handleSave\<close>: the result is the outcome of the promise (\<open>Inl\<close>: rejected) and the
  state it leaves.
\<close>

definition handleSave :: "bool \<Rightarrow> json \<Rightarrow> app \<Rightarrow> (js_error + unit) \<times> app" where
  "handleSave ok newData st =
     (let st1 = st\<lparr>troubleshootingData := newData\<rparr> in
      case setItem ok (LocalStorage st1) (str ''troubleshootingData'') (JSON_stringify newData) of
        Inl e \<Rightarrow> (Inl e, st1)
      | Inr store \<Rightarrow>
          (Inr (),
           (showToast Success ''Flow Saved!'' ''Your changes have been saved.''
              (st1\<lparr>LocalStorage := store\<rparr>))\<lparr>activeTab := str ''flow''\<rparr>))"

section \<open>The editor (\<open>EditorView\<close>, lines 153 to 183)\<close>

text \<open>The text the editor opens with: \<open>JSON.stringify(currentData, null, 2)\<close>.\<close>

definition EditorView_defaultValue :: "json \<Rightarrow> jsstring" where
  "EditorView_defaultValue currentData = JSON_stringify_indent2 currentData"

text \<open>
  \<open>handleSubmit\<close> does not await \<open>onSave\<close>: a rejected save is not caught, and \<open>pop\<close> is
  called whatever the outcome of the write is.
\<close>

definition handleSubmit :: "bool \<Rightarrow> app \<Rightarrow> app" where
  "handleSubmit ok st =
     (case JSON_parse (jsonData st) of
        Inr parsedData \<Rightarrow> pop (snd (handleSave ok parsedData st))
      | Inl e \<Rightarrow> showToast Failure ''Invalid JSON'' ''Please check your syntax.'' st)"

section \<open>Concrete inputs\<close>

text \<open>
  \<open>loaded_default\<close> is the state after a first run, with nothing stored.
  \<open>dangling_graph\<close> has one step, whose answer leads to a step \<open>constructor\<close> that
  the graph does not have.
\<close>

definition loaded_default :: app where
  "loaded_default = loadData True (initial_app Map.empty)"

definition dangling_graph :: TroubleshootingData where
  "dangling_graph =
     [mk_step ''start'' ''Which step?'' [mk_answer ''Go on'' (Some ''constructor'') ''Play'']]"

declare parse_value.simps [simp del] parse_elements.simps [simp del]
  parse_members.simps [simp del]

section \<open>Properties of the traversal engine\<close>

lemma length_str [simp]: "length (str s) = length s"
  by (simp add: str_def)

lemma missing_step_end_of_flow:
  "map_of g k = None \<Longrightarrow> k \<notin> set Object_prototype_keys \<Longrightarrow>
     TroubleshootingStep Icon chevron k g False = Inr EndOfFlow"
  by (simp add: TroubleshootingStep_def get_property_def)

lemma does_not_exist_end_of_flow:
  "TroubleshootingStep Icon chevron (str ''does-not-exist'') initialTroubleshootingData False =
     Inr EndOfFlow"
  by (simp add: initialTroubleshootingData_def mk_step_def str_def TroubleshootingStep_def
      get_property_def Object_prototype_keys_def)

lemma icon_does_not_affect_action: "selectAnswer (a\<lparr>icon := i\<rparr>) = selectAnswer a"
  by (simp add: selectAnswer_def)

lemma symbolFor_absent:
  "symbolFor Icon chevron None = Symbol chevron" "symbolFor Icon chevron (Some []) = Symbol chevron"
  by (simp_all add: symbolFor_def truthy_def)

lemma symbolFor_member:
  "n \<noteq> [] \<Longrightarrow> map_of Icon n = Some s \<Longrightarrow> symbolFor Icon chevron (Some n) = Symbol s"
  by (simp add: symbolFor_def truthy_def get_property_def)

lemma symbolFor_unknown:
  "map_of Icon n = None \<Longrightarrow> n \<notin> set Object_prototype_keys \<Longrightarrow>
     symbolFor Icon chevron (Some n) = Symbol chevron"
  by (simp add: symbolFor_def truthy_def get_property_def)

lemma take_eq_prefix: "take (length pat) s = pat \<longleftrightarrow> prefix pat s"
proof
  assume "take (length pat) s = pat"
  then have "s = pat @ drop (length pat) s"
    by (metis append_take_drop_id)
  then show "prefix pat s"
    by (metis prefixI)
next
  assume "prefix pat s"
  then obtain t where "s = pat @ t"
    by (auto simp: prefix_def)
  then show "take (length pat) s = pat"
    by simp
qed

lemma replace_prefix_prefix:
  "replace_prefix pat rep s = (if prefix pat s then rep @ drop (length pat) s else s)"
  by (simp add: replace_prefix_def take_eq_prefix)

lemma replace_prefix_append: "replace_prefix pat rep (pat @ t) = rep @ t"
  by (simp add: replace_prefix_def)

section \<open>The parser consumes its input\<close>

lemma parse_digits_consumes: "parse_digits s = Some (d, r) \<Longrightarrow> length r < length s"
proof -
  assume a: "parse_digits s = Some (d, r)"
  have "length (takeWhile is_digit s) + length (dropWhile is_digit s) = length s"
    by (metis length_append takeWhile_dropWhile_id)
  moreover have "takeWhile is_digit s \<noteq> []" and r: "r = dropWhile is_digit s"
    using a by (auto simp: parse_digits_def split: if_splits)
  then have "0 < length (takeWhile is_digit s)"
    by simp
  ultimately have "length (dropWhile is_digit s) < length s"
    by linarith
  with r show ?thesis by simp
qed

lemma parse_int_part_consumes: "parse_int_part s = Some (d, r) \<Longrightarrow> length r < length s"
  by (auto simp: parse_int_part_def split: list.splits if_splits dest: parse_digits_consumes)

lemma parse_fraction_consumes: "parse_fraction s = Some (d, r) \<Longrightarrow> length r \<le> length s"
  by (auto simp: parse_fraction_def split: list.splits if_splits dest: parse_digits_consumes)

lemma parse_exponent_consumes: "parse_exponent s = Some (d, r) \<Longrightarrow> length r \<le> length s"
  by (auto simp: parse_exponent_def split: list.splits if_splits dest: parse_digits_consumes)

lemma parse_unsigned_consumes: "parse_unsigned s = Some (d, r) \<Longrightarrow> length r < length s"
  by (auto simp: parse_unsigned_def split: option.splits
      dest!: parse_int_part_consumes parse_fraction_consumes parse_exponent_consumes)

lemma parse_number_consumes: "parse_number s = Some (d, r) \<Longrightarrow> length r < length s"
  by (auto simp: parse_number_def split: list.splits if_splits dest: parse_unsigned_consumes)

lemma parse_scalar_consumes: "parse_scalar s = Some (v, r) \<Longrightarrow> length r < length s"
proof -
  assume a: "parse_scalar s = Some (v, r)"
  have "0 < length s" if "take n s = str t" "t \<noteq> []" for n t
    using that by (cases s) (auto simp: str_def)
  from this [of 4 "''null''"] this [of 4 "''true''"] this [of 5 "''false''"] a show ?thesis
    by (auto simp: parse_scalar_def split: if_splits dest: parse_number_consumes)
qed

lemma parse_consumes:
  "parse_value s = Some (v, r) \<Longrightarrow> length r < length s"
  "parse_elements acc s = Some (vs, r) \<Longrightarrow> length r < length s"
  "parse_members macc s = Some (kvs, r) \<Longrightarrow> length r < length s"
proof (induction s and acc s and macc s arbitrary: v r and vs r and kvs r
    rule: parse_value_parse_elements_parse_members.induct)
  case (1 s)
  from "1.prems" obtain c cs where s: "skip_ws s = c # cs"
    by (auto simp: parse_value.simps [of s] split: list.splits)
  then have cs: "length cs < length s"
    by (rule skip_ws_Cons_length)
  consider (obj) "c = 0x7B" | (arr) "c \<noteq> 0x7B" "c = 0x5B"
    | (string) "c \<noteq> 0x7B" "c \<noteq> 0x5B" "c = 0x22"
    | (scalar) "c \<noteq> 0x7B" "c \<noteq> 0x5B" "c \<noteq> 0x22"
    by blast
  then show ?case
  proof cases
    case obj
    with "1.prems" s obtain d ds where d: "skip_ws cs = d # ds"
      by (auto simp: parse_value.simps [of s] split: list.splits)
    show ?thesis
    proof (cases "d = 0x7D")
      case True
      with "1.prems" s obj d have "r = ds"
        by (simp add: parse_value.simps [of s])
      with skip_ws_Cons_length [OF d] cs show ?thesis by simp
    next
      case False
      with "1.prems" s obj d obtain kvs where "parse_members [] cs = Some (kvs, r)"
        by (auto simp: parse_value.simps [of s])
      from "1.IH"(1) [OF s obj d False this] cs show ?thesis by simp
    qed
  next
    case arr
    with "1.prems" s obtain d ds where d: "skip_ws cs = d # ds"
      by (auto simp: parse_value.simps [of s] split: list.splits)
    show ?thesis
    proof (cases "d = 0x5D")
      case True
      with "1.prems" s arr d have "r = ds"
        by (simp add: parse_value.simps [of s])
      with skip_ws_Cons_length [OF d] cs show ?thesis by simp
    next
      case False
      with "1.prems" s arr d obtain vs where "parse_elements [] cs = Some (vs, r)"
        by (auto simp: parse_value.simps [of s])
      from "1.IH"(2) [OF s arr d False this] cs show ?thesis by simp
    qed
  next
    case string
    with "1.prems" s obtain k where "parse_string_chars [] cs = Some (k, r)"
      by (auto simp: parse_value.simps [of s])
    from parse_string_chars_length [OF this] cs show ?thesis by simp
  next
    case scalar
    with "1.prems" s have "parse_scalar (c # cs) = Some (v, r)"
      by (simp add: parse_value.simps [of s])
    from parse_scalar_consumes [OF this] cs show ?thesis by simp
  qed
next
  case (2 acc s)
  from "2.prems" obtain v r' where v: "parse_value s = Some (v, r')" and g: "length r' < length s"
    by (auto simp: parse_elements.simps [of acc s] split: option.splits if_splits)
  with "2.prems" obtain c cs where c: "skip_ws r' = c # cs"
    by (auto simp: parse_elements.simps [of acc s] split: list.splits)
  have cs: "length cs < length s"
    using skip_ws_Cons_length [OF c] g by simp
  show ?case
  proof (cases "c = 0x2C")
    case True
    with "2.prems" v g c have "parse_elements (acc @ [v]) cs = Some (vs, r)"
      by (simp add: parse_elements.simps [of acc s])
    from "2.IH"(2) [OF v refl g c True this] cs show ?thesis by simp
  next
    case False
    with "2.prems" v g c have "r = cs"
      by (simp add: parse_elements.simps [of acc s] split: if_splits)
    with cs show ?thesis by simp
  qed
next
  case (3 acc s)
  from "3.prems" obtain q cs where q: "skip_ws s = q # cs" "q = 0x22"
    by (auto simp: parse_members.simps [of acc s] split: list.splits if_splits)
  with "3.prems" obtain k r1 where k: "parse_string_chars [] cs = Some (k, r1)"
    by (auto simp: parse_members.simps [of acc s] split: option.splits)
  with "3.prems" q obtain d ds where d: "skip_ws r1 = d # ds" "d = 0x3A"
    by (auto simp: parse_members.simps [of acc s] split: list.splits if_splits)
  with "3.prems" q k obtain v r' where v: "parse_value ds = Some (v, r')"
    and g: "length r' < length ds"
    by (auto simp: parse_members.simps [of acc s] split: option.splits if_splits)
  with "3.prems" q k d obtain e es where e: "skip_ws r' = e # es"
    by (auto simp: parse_members.simps [of acc s] split: list.splits)
  have es: "length es < length s"
    using skip_ws_Cons_length [OF q(1)] parse_string_chars_length [OF k]
      skip_ws_Cons_length [OF d(1)] g skip_ws_Cons_length [OF e] by simp
  show ?case
  proof (cases "e = 0x2C")
    case True
    with "3.prems" q k d v g e have "parse_members (obj_set k v acc) es = Some (kvs, r)"
      by (simp add: parse_members.simps [of acc s])
    from "3.IH"(2) [OF q k refl d v refl g e True this] es
    show ?thesis by simp
  next
    case False
    with "3.prems" q k d v g e have "r = es"
      by (simp add: parse_members.simps [of acc s] split: if_splits)
    with es show ?thesis by simp
  qed
qed

lemma parse_elements_unguarded:
  "parse_elements acc s =
     (case parse_value s of
        None \<Rightarrow> None
      | Some (v, r) \<Rightarrow>
          (case skip_ws r of
             [] \<Rightarrow> None
           | c # cs \<Rightarrow>
               if c = 0x2C then parse_elements (acc @ [v]) cs
               else if c = 0x5D then Some (acc @ [v], cs)
               else None))"
  by (auto simp: parse_elements.simps [of acc s] split: option.splits dest: parse_consumes(1))

lemma parse_members_unguarded:
  "parse_members acc s =
     (case skip_ws s of
        [] \<Rightarrow> None
      | q # cs \<Rightarrow>
          if q = 0x22 then
            (case parse_string_chars [] cs of
               None \<Rightarrow> None
             | Some (k, r) \<Rightarrow>
                 (case skip_ws r of
                    [] \<Rightarrow> None
                  | d # ds \<Rightarrow>
                      if d = 0x3A then
                        (case parse_value ds of
                           None \<Rightarrow> None
                         | Some (v, r') \<Rightarrow>
                             (case skip_ws r' of
                                [] \<Rightarrow> None
                              | e # es \<Rightarrow>
                                  if e = 0x2C then parse_members (obj_set k v acc) es
                                  else if e = 0x7D then Some (obj_set k v acc, es)
                                  else None))
                      else None))
          else None)"
  by (auto simp: parse_members.simps [of acc s] split: option.splits list.splits
      dest: parse_consumes(1))

section \<open>The parser reads what the serializer writes\<close>

lemma unat_hex_digit:
  "d < 16 \<Longrightarrow> unat (hex_digit d) = (if d < 10 then 48 + d else 87 + d)"
proof -
  assume d: "d < 16"
  have "unat (of_nat m :: jschar) = m" if "m < 65536" for m
    using that by (simp add: unat_of_nat)
  from this [of "48 + d"] this [of "87 + d"] d show ?thesis
    unfolding hex_digit_def by (simp del: of_nat_add of_nat_diff)
qed

lemma hex_digit_value: "d < 16 \<Longrightarrow> hex_value (hex_digit d) = Some d"
  by (simp add: hex_value_def unat_hex_digit)

lemma hex4_arith:
  "((n div 4096 * 16 + n div 256 mod 16) * 16 + n div 16 mod 16) * 16 + n mod 16 = (n::nat)"
proof -
  have a: "n div 256 div 16 = n div 4096" and b: "n div 16 div 16 = n div 256"
    by (simp_all add: div_mult2_eq [symmetric])
  have "n div 4096 * 16 + n div 256 mod 16 = n div 256"
    using div_mult_mod_eq [of "n div 256" 16] by (simp only: a)
  moreover have "n div 256 * 16 + n div 16 mod 16 = n div 16"
    using div_mult_mod_eq [of "n div 16" 16] by (simp only: b)
  moreover have "n div 16 * 16 + n mod 16 = n"
    by (rule div_mult_mod_eq)
  ultimately show ?thesis by (simp only:)
qed

lemma parse_hex4_digits:
  assumes "a < 16" "b < 16" "c < 16" "d < 16"
  shows "parse_hex4 [hex_digit a, hex_digit b, hex_digit c, hex_digit d] =
           Some (of_nat (((a * 16 + b) * 16 + c) * 16 + d))"
  unfolding parse_hex4_def by (simp add: hex_digit_value assms del: of_nat_add of_nat_mult)

lemma parse_hex4_escape: "parse_hex4 (take 4 (drop 2 (UnicodeEscape c))) = Some c"
proof -
  define n where "n = unat c"
  have "n < 65536" using unsigned_less [of c] by (simp add: n_def)
  then have bounds: "n div 4096 < 16" "n div 256 mod 16 < 16" "n div 16 mod 16 < 16" "n mod 16 < 16"
    by simp_all
  have "take 4 (drop 2 (UnicodeEscape c)) =
          [hex_digit (n div 4096), hex_digit (n div 256 mod 16),
           hex_digit (n div 16 mod 16), hex_digit (n mod 16)]"
    by (simp add: UnicodeEscape_def Let_def n_def)
  then have "parse_hex4 (take 4 (drop 2 (UnicodeEscape c))) = Some (of_nat n)"
    by (simp only: parse_hex4_digits [OF bounds] hex4_arith)
  then show ?thesis by (simp add: n_def)
qed

lemma parse_unicode_escape:
  "parse_string_chars acc (UnicodeEscape c @ rest) = parse_string_chars (acc @ [c]) rest"
proof -
  obtain ds where ds: "UnicodeEscape c = 0x5C # 0x75 # ds" "length ds = 4"
    by (simp add: UnicodeEscape_def Let_def)
  then have "parse_hex4 ds = Some c"
    using parse_hex4_escape [of c] by simp
  with ds show ?thesis by simp
qed

lemma surrogate_literal:
  "is_leading_surrogate c \<or> is_trailing_surrogate c \<Longrightarrow>
     c \<noteq> 0x22 \<and> c \<noteq> 0x5C \<and> \<not> c < 0x20"
  by (auto simp: is_leading_surrogate_def is_trailing_surrogate_def word_le_nat_alt
      word_less_nat_alt)

lemma parse_literal:
  "c \<noteq> 0x22 \<Longrightarrow> c \<noteq> 0x5C \<Longrightarrow> \<not> c < 0x20 \<Longrightarrow>
     parse_string_chars acc (c # rest) = parse_string_chars (acc @ [c]) rest"
  by simp

lemma parse_quote_unit:
  "parse_string_chars acc (quote_unit c @ rest) = parse_string_chars (acc @ [c]) rest"
  unfolding quote_unit_def
  by (simp add: parse_unicode_escape simple_escape_def)

lemma parse_quote_units:
  "parse_string_chars acc (quote_units s @ rest) = parse_string_chars (acc @ s) rest"
proof (induction s arbitrary: acc rule: quote_units.induct)
  case 1
  then show ?case by simp
next
  case (2 c)
  then show ?case by (simp add: parse_quote_unit)
next
  case (3 c d cs)
  show ?case
  proof (cases "is_leading_surrogate c \<and> is_trailing_surrogate d")
    case True
    then have "c \<noteq> 0x22 \<and> c \<noteq> 0x5C \<and> \<not> c < 0x20"
      and "d \<noteq> 0x22 \<and> d \<noteq> 0x5C \<and> \<not> d < 0x20"
      using surrogate_literal [of c] surrogate_literal [of d] by blast+
    then have "parse_string_chars acc (c # d # quote_units cs @ rest) =
        parse_string_chars ((acc @ [c]) @ [d]) (quote_units cs @ rest)"
      by simp
    also have "\<dots> = parse_string_chars (((acc @ [c]) @ [d]) @ cs) rest"
      using True by (rule "3.IH"(1))
    finally show ?thesis using True by simp
  next
    case False
    then have "parse_string_chars acc (quote_units (c # d # cs) @ rest) =
        parse_string_chars (acc @ [c]) (quote_units (d # cs) @ rest)"
      by (simp only: quote_units.simps if_False append_assoc parse_quote_unit)
    also have "\<dots> = parse_string_chars ((acc @ [c]) @ d # cs) rest"
      using False by (rule "3.IH"(2))
    finally show ?thesis by simp
  qed
qed

lemma parse_QuoteJSONString:
  "parse_string_chars [] (tl (QuoteJSONString s) @ rest) = Some (s, rest)"
  unfolding QuoteJSONString_def
  using parse_quote_units [of "[]" s "0x22 # rest"] by simp

lemma skip_ws_append: "list_all is_ws w \<Longrightarrow> skip_ws (w @ s) = skip_ws s"
  by (induction w) (simp_all add: skip_ws_def)

lemma skip_ws_Cons: "\<not> is_ws c \<Longrightarrow> skip_ws (c # s) = c # s"
  by (simp add: skip_ws_def)

lemma skip_ws_ws_Cons: "list_all is_ws w \<Longrightarrow> \<not> is_ws c \<Longrightarrow> skip_ws (w @ c # s) = c # s"
  by (simp add: skip_ws_append skip_ws_Cons)

lemma newline_indent_ws:
  "list_all is_ws gap \<Longrightarrow> list_all is_ws indent \<Longrightarrow> list_all is_ws (newline_indent gap indent)"
  by (simp add: newline_indent_def is_ws_def)

lemma parse_value_ws: "list_all is_ws w \<Longrightarrow> parse_value (w @ s) = parse_value s"
  by (simp only: parse_value.simps [of "w @ s"] parse_value.simps [of s] skip_ws_append)

lemma Serialize_array:
  "vs \<noteq> [] \<Longrightarrow> SerializeJSONProperty gap indent (JArray vs) =
     0x5B # newline_indent gap (indent @ gap)
       @ join (0x2C # newline_indent gap (indent @ gap))
           (map (SerializeJSONProperty gap (indent @ gap)) vs)
       @ newline_indent gap indent @ [0x5D]"
  by (simp add: Let_def newline_indent_def)

lemma Serialize_object:
  "kvs \<noteq> [] \<Longrightarrow> SerializeJSONProperty gap indent (JObject kvs) =
     0x7B # newline_indent gap (indent @ gap)
       @ join (0x2C # newline_indent gap (indent @ gap))
           (map (\<lambda>kv. QuoteJSONString (fst kv) @ 0x3A # (if gap = [] then [] else [0x20])
                   @ SerializeJSONProperty gap (indent @ gap) (snd kv)) kvs)
       @ newline_indent gap indent @ [0x7D]"
  by (simp add: Let_def newline_indent_def)

lemma Serialize_start:
  "plain v \<Longrightarrow> \<exists>c cs. SerializeJSONProperty gap indent v = c # cs \<and> value_start c"
  by (cases v) (auto simp: Let_def str_def QuoteJSONString_def value_start_def)

lemma parse_value_Cons:
  "\<not> is_ws c \<Longrightarrow> parse_value (c # cs) =
     (if c = 0x7B then
        (case skip_ws cs of
           [] \<Rightarrow> None
         | d # ds \<Rightarrow>
             if d = 0x7D then Some (JObject [], ds)
             else map_option (apfst JObject) (parse_members [] cs))
      else if c = 0x5B then
        (case skip_ws cs of
           [] \<Rightarrow> None
         | d # ds \<Rightarrow>
             if d = 0x5D then Some (JArray [], ds)
             else map_option (apfst JArray) (parse_elements [] cs))
      else if c = 0x22 then map_option (apfst JString) (parse_string_chars [] cs)
      else parse_scalar (c # cs))"
  by (simp add: parse_value.simps [of "c # cs"] skip_ws_Cons)

lemma parse_value_string:
  "parse_value (0x22 # cs) = map_option (apfst JString) (parse_string_chars [] cs)"
  by (simp add: parse_value_Cons is_ws_def)

lemma parse_value_null: "parse_value (str ''null'' @ rest) = Some (JNull, rest)"
  by (simp add: parse_value_Cons str_def is_ws_def parse_scalar_def)

lemma parse_value_true: "parse_value (str ''true'' @ rest) = Some (JBool True, rest)"
  by (simp add: parse_value_Cons str_def is_ws_def parse_scalar_def)

lemma parse_value_false: "parse_value (str ''false'' @ rest) = Some (JBool False, rest)"
  by (simp add: parse_value_Cons str_def is_ws_def parse_scalar_def)

lemma parse_value_array_empty: "parse_value (str ''[]'' @ rest) = Some (JArray [], rest)"
  by (simp add: parse_value_Cons str_def skip_ws_Cons is_ws_def)

lemma parse_value_object_empty: "parse_value (str ''{}'' @ rest) = Some (JObject [], rest)"
  by (simp add: parse_value_Cons str_def skip_ws_Cons is_ws_def)

lemma parse_value_array:
  "skip_ws cs = d # ds \<Longrightarrow> d \<noteq> 0x5D \<Longrightarrow>
     parse_value (0x5B # cs) = map_option (apfst JArray) (parse_elements [] cs)"
  by (simp add: parse_value_Cons is_ws_def)

lemma parse_value_object:
  "skip_ws cs = d # ds \<Longrightarrow> d \<noteq> 0x7D \<Longrightarrow>
     parse_value (0x7B # cs) = map_option (apfst JObject) (parse_members [] cs)"
  by (simp add: parse_value_Cons is_ws_def)

lemma parse_elements_step:
  assumes "parse_value s = Some (v, r)" "length r < length s" "skip_ws r = c # cs"
  shows "parse_elements acc s =
           (if c = 0x2C then parse_elements (acc @ [v]) cs
            else if c = 0x5D then Some (acc @ [v], cs) else None)"
  using assms by (simp add: parse_elements.simps [of acc s])

lemma parse_elements_join:
  assumes w: "list_all is_ws w" "list_all is_ws w2"
  shows "vs \<noteq> [] \<Longrightarrow>
     (\<And>v r. v \<in> set vs \<Longrightarrow> parse_value (S v @ r) = Some (v, r)) \<Longrightarrow>
     (\<And>v. v \<in> set vs \<Longrightarrow> S v \<noteq> []) \<Longrightarrow>
     parse_elements acc (w @ join (0x2C # w) (map S vs) @ w2 @ 0x5D # rest) =
       Some (acc @ vs, rest)"
proof (induction vs arbitrary: acc)
  case Nil
  then show ?case by simp
next
  case (Cons v vs)
  show ?case
  proof (cases vs)
    case Nil
    let ?r = "w2 @ 0x5D # rest"
    have "parse_value (w @ S v @ ?r) = Some (v, ?r)"
      using w Cons.prems(2) [of v ?r] by (simp add: parse_value_ws)
    moreover have "length ?r < length (w @ S v @ ?r)"
      using Cons.prems(3) [of v] by simp
    moreover have "skip_ws ?r = 0x5D # rest"
      using w by (simp add: skip_ws_ws_Cons is_ws_def)
    ultimately have "parse_elements acc (w @ S v @ ?r) = Some (acc @ [v], rest)"
      by (simp add: parse_elements_step)
    with Nil show ?thesis by simp
  next
    case (Cons v' vs')
    let ?r = "0x2C # w @ join (0x2C # w) (map S vs) @ w2 @ 0x5D # rest"
    have "parse_value (w @ S v @ ?r) = Some (v, ?r)"
      using w Cons.prems(2) [of v ?r] by (simp add: parse_value_ws)
    moreover have "length ?r < length (w @ S v @ ?r)"
      using Cons.prems(3) [of v] by simp
    moreover have "skip_ws ?r = 0x2C # w @ join (0x2C # w) (map S vs) @ w2 @ 0x5D # rest"
      by (simp add: skip_ws_Cons is_ws_def)
    ultimately have "parse_elements acc (w @ S v @ ?r) =
        parse_elements (acc @ [v]) (w @ join (0x2C # w) (map S vs) @ w2 @ 0x5D # rest)"
      by (simp add: parse_elements_step)
    also have "\<dots> = Some ((acc @ [v]) @ vs, rest)"
      using Cons Cons.prems by (intro Cons.IH) simp_all
    finally show ?thesis using Cons by simp
  qed
qed

lemma obj_set_fresh: "k \<notin> fst ` set acc \<Longrightarrow> obj_set k v acc = acc @ [(k, v)]"
  by (simp add: obj_set_def)

lemma parse_members_step:
  assumes "skip_ws s = 0x22 # cs" "parse_string_chars [] cs = Some (k, r)"
    "skip_ws r = 0x3A # ds" "parse_value ds = Some (v, r')" "length r' < length ds"
    "skip_ws r' = e # es"
  shows "parse_members acc s =
           (if e = 0x2C then parse_members (obj_set k v acc) es
            else if e = 0x7D then Some (obj_set k v acc, es) else None)"
  using assms by (simp add: parse_members.simps [of acc s])

lemma parse_member:
  assumes w: "list_all is_ws w" "list_all is_ws sp"
    and v: "parse_value (S v @ r) = Some (v, r)" "S v \<noteq> []"
    and r: "skip_ws r = e # es"
  shows "parse_members acc (w @ QuoteJSONString k @ 0x3A # sp @ S v @ r) =
           (if e = 0x2C then parse_members (obj_set k v acc) es
            else if e = 0x7D then Some (obj_set k v acc, es) else None)"
proof (rule parse_members_step)
  show "skip_ws (w @ QuoteJSONString k @ 0x3A # sp @ S v @ r) =
          0x22 # tl (QuoteJSONString k) @ 0x3A # sp @ S v @ r"
    using w by (simp add: QuoteJSONString_def skip_ws_ws_Cons is_ws_def)
  show "parse_string_chars [] (tl (QuoteJSONString k) @ 0x3A # sp @ S v @ r) =
          Some (k, 0x3A # sp @ S v @ r)"
    by (rule parse_QuoteJSONString)
  show "skip_ws (0x3A # sp @ S v @ r) = 0x3A # sp @ S v @ r"
    by (simp add: skip_ws_Cons is_ws_def)
  show "parse_value (sp @ S v @ r) = Some (v, r)"
    using w v by (simp add: parse_value_ws)
  show "length r < length (sp @ S v @ r)"
    using v by simp
  show "skip_ws r = e # es"
    by (rule r)
qed

lemma parse_members_join:
  assumes w: "list_all is_ws w" "list_all is_ws w2" "list_all is_ws sp"
  shows "kvs \<noteq> [] \<Longrightarrow>
     (\<And>kv r. kv \<in> set kvs \<Longrightarrow> parse_value (S (snd kv) @ r) = Some (snd kv, r)) \<Longrightarrow>
     (\<And>kv. kv \<in> set kvs \<Longrightarrow> S (snd kv) \<noteq> []) \<Longrightarrow>
     distinct (map fst kvs) \<Longrightarrow> fst ` set acc \<inter> fst ` set kvs = {} \<Longrightarrow>
     parse_members acc
       (w @ join (0x2C # w) (map (\<lambda>kv. QuoteJSONString (fst kv) @ 0x3A # sp @ S (snd kv)) kvs)
          @ w2 @ 0x7D # rest) =
       Some (acc @ kvs, rest)"
proof (induction kvs arbitrary: acc)
  case Nil
  then show ?case by simp
next
  case (Cons kv kvs)
  let ?M = "\<lambda>kv. QuoteJSONString (fst kv) @ 0x3A # sp @ S (snd kv)"
  have fresh: "obj_set (fst kv) (snd kv) acc = acc @ [kv]"
    using Cons.prems(5) by (simp add: obj_set_fresh)
  have v: "parse_value (S (snd kv) @ r) = Some (snd kv, r)" "S (snd kv) \<noteq> []" for r
    using Cons.prems(2) [of kv r] Cons.prems(3) [of kv] by simp_all
  show ?case
  proof (cases kvs)
    case Nil
    have "skip_ws (w2 @ 0x7D # rest) = 0x7D # rest"
      using w by (simp add: skip_ws_ws_Cons is_ws_def)
    from parse_member [where S = S and v = "snd kv" and r = "w2 @ 0x7D # rest"
        and acc = acc and k = "fst kv", OF w(1) w(3) v this] fresh
    have "parse_members acc (w @ ?M kv @ w2 @ 0x7D # rest) = Some (acc @ [kv], rest)"
      by simp
    with Nil show ?thesis by simp
  next
    case (Cons kv' kvs')
    let ?r = "0x2C # w @ join (0x2C # w) (map ?M kvs) @ w2 @ 0x7D # rest"
    have "skip_ws ?r = ?r"
      by (simp add: skip_ws_Cons is_ws_def)
    from parse_member [where S = S and v = "snd kv" and r = ?r
        and acc = acc and k = "fst kv", OF w(1) w(3) v this] fresh
    have "parse_members acc (w @ ?M kv @ ?r) =
        parse_members (acc @ [kv]) (w @ join (0x2C # w) (map ?M kvs) @ w2 @ 0x7D # rest)"
      by simp
    also have "\<dots> = Some ((acc @ [kv]) @ kvs, rest)"
    proof (rule Cons.IH)
      show "kvs \<noteq> []" using Cons by simp
      show "parse_value (S (snd x) @ r) = Some (snd x, r)" if "x \<in> set kvs" for x r
        using that Cons.prems(2) [of x r] by simp
      show "S (snd x) \<noteq> []" if "x \<in> set kvs" for x
        using that Cons.prems(3) [of x] by simp
      show "distinct (map fst kvs)" using Cons.prems(4) by simp
      show "fst ` set (acc @ [kv]) \<inter> fst ` set kvs = {}"
        using Cons.prems(4,5) by auto
    qed
    finally show ?thesis using Cons by simp
  qed
qed

lemma join_start:
  "xs \<noteq> [] \<Longrightarrow> hd xs = d # ds \<Longrightarrow> \<exists>t. join sep xs = d # t"
  by (cases "(sep, xs)" rule: join.cases) auto

lemma value_start_simps:
  "value_start c \<Longrightarrow> \<not> is_ws c \<and> c \<noteq> 0x5D \<and> c \<noteq> 0x7D"
  by (auto simp: value_start_def is_ws_def)

lemma parse_Serialize:
  "plain v \<Longrightarrow> list_all is_ws gap \<Longrightarrow> list_all is_ws indent \<Longrightarrow>
     parse_value (SerializeJSONProperty gap indent v @ rest) = Some (v, rest)"
proof (induction v arbitrary: indent rest)
  case JNull
  show ?case by (simp add: parse_value_null)
next
  case (JBool b)
  show ?case by (simp add: parse_value_true parse_value_false)
next
  case (JNumber n)
  then show ?case by simp
next
  case (JString s)
  show ?case
    using parse_QuoteJSONString [of s rest]
    by (simp add: QuoteJSONString_def parse_value_string)
next
  case (JArray vs)
  show ?case
  proof (cases "vs = []")
    case True
    then show ?thesis by (simp add: parse_value_array_empty)
  next
    case False
    let ?S = "SerializeJSONProperty gap (indent @ gap)"
    let ?w = "newline_indent gap (indent @ gap)"
    let ?w2 = "newline_indent gap indent"
    let ?cs = "?w @ join (0x2C # ?w) (map ?S vs) @ ?w2 @ 0x5D # rest"
    have ws: "list_all is_ws ?w" "list_all is_ws ?w2"
      using JArray.prems by (simp_all add: newline_indent_ws)
    have el: "parse_value (?S v @ r) = Some (v, r)" if "v \<in> set vs" for v r
      using that JArray.IH [of v "indent @ gap" r] JArray.prems
      by (auto simp: list_all_iff)
    have ne: "?S v \<noteq> []" if "v \<in> set vs" for v
      using that Serialize_start [of v gap "indent @ gap"] JArray.prems
      by (auto simp: list_all_iff)
    obtain d ds where "?S (hd vs) = d # ds" "value_start d"
      using False Serialize_start [of "hd vs" gap "indent @ gap"] JArray.prems
      by (auto simp: list_all_iff)
    then obtain t where t: "join (0x2C # ?w) (map ?S vs) = d # t" and d: "value_start d"
      using False join_start [of "map ?S vs" d ds "0x2C # ?w"] by (auto simp: hd_map)
    have "skip_ws ?cs = d # t @ ?w2 @ 0x5D # rest"
      using ws t value_start_simps [OF d] by (simp add: skip_ws_append skip_ws_Cons)
    then have "parse_value (0x5B # ?cs) = map_option (apfst JArray) (parse_elements [] ?cs)"
      using value_start_simps [OF d] by (intro parse_value_array) auto
    also have "parse_elements [] ?cs = Some ([] @ vs, rest)"
      using ws False el ne by (intro parse_elements_join) auto
    finally show ?thesis
      using False by (simp add: Serialize_array del: SerializeJSONProperty.simps)
  qed
next
  case (JObject kvs)
  show ?case
  proof (cases "kvs = []")
    case True
    then show ?thesis by (simp add: parse_value_object_empty)
  next
    case False
    let ?S = "SerializeJSONProperty gap (indent @ gap)"
    let ?sp = "if gap = [] then [] else [0x20 :: jschar]"
    let ?M = "\<lambda>kv. QuoteJSONString (fst kv) @ 0x3A # ?sp @ ?S (snd kv)"
    let ?w = "newline_indent gap (indent @ gap)"
    let ?w2 = "newline_indent gap indent"
    let ?cs = "?w @ join (0x2C # ?w) (map ?M kvs) @ ?w2 @ 0x7D # rest"
    have ws: "list_all is_ws ?w" "list_all is_ws ?w2"
      using JObject.prems by (simp_all add: newline_indent_ws)
    have sp: "list_all is_ws ?sp"
      by (simp add: is_ws_def)
    note ws = ws sp
    have el: "parse_value (?S (snd kv) @ r) = Some (snd kv, r)" if "kv \<in> set kvs" for kv r
    proof -
      obtain k v where kv: "kv = (k, v)"
        by (cases kv)
      have "v \<in> Basic_BNFs.snds kv"
        by (simp add: kv)
      moreover have "plain v"
        using that JObject.prems(1) kv by (auto simp: list_all_iff)
      moreover have "list_all is_ws (indent @ gap)"
        using JObject.prems(2,3) by simp
      ultimately have "parse_value (?S v @ r) = Some (v, r)"
        using JObject.prems(2) by (intro JObject.IH [OF that])
      then show ?thesis by (simp add: kv)
    qed
    have ne: "?S (snd kv) \<noteq> []" if "kv \<in> set kvs" for kv
      using that Serialize_start [of "snd kv" gap "indent @ gap"] JObject.prems
      by (auto simp: list_all_iff)
    have "?M (hd kvs) = 0x22 # tl (?M (hd kvs))"
      by (simp add: QuoteJSONString_def)
    then obtain t where t: "join (0x2C # ?w) (map ?M kvs) = 0x22 # t"
      using False join_start [of "map ?M kvs" "0x22" "tl (?M (hd kvs))" "0x2C # ?w"]
      by (auto simp: hd_map)
    have "skip_ws ?cs = 0x22 # t @ ?w2 @ 0x7D # rest"
      using ws t by (simp add: skip_ws_append skip_ws_Cons is_ws_def)
    then have "parse_value (0x7B # ?cs) = map_option (apfst JObject) (parse_members [] ?cs)"
      by (intro parse_value_object) auto
    also have "parse_members [] ?cs = Some ([] @ kvs, rest)"
      using ws False el ne JObject.prems(1)
      by (intro parse_members_join [where S = ?S and sp = ?sp]) auto
    finally show ?thesis
      using False by (simp add: Serialize_object del: SerializeJSONProperty.simps)
  qed
qed

lemma JSON_parse_Serialize:
  "plain v \<Longrightarrow> list_all is_ws gap \<Longrightarrow> JSON_parse (SerializeJSONProperty gap [] v) = Inr v"
  using parse_Serialize [of v gap "[]" "[]"] by (simp add: JSON_parse_def skip_ws_def)

section \<open>Properties of the graph encoding\<close>

lemma plain_answer: "plain (json_of_answer a)"
  by (simp add: json_of_answer_def str_def split: option.splits)

lemma plain_step: "plain (json_of_step s)"
  by (simp add: json_of_step_def str_def list_all_iff plain_answer)

lemma plain_graph: "valid_graph g \<Longrightarrow> plain (json_of_graph g)"
  by (simp add: json_of_graph_def valid_graph_def list_all_iff plain_step comp_def)

lemma json_of_answer_inject: "json_of_answer a = json_of_answer b \<longleftrightarrow> a = b"
  by (cases a; cases b) (auto simp: json_of_answer_def split: option.splits)

lemma json_of_step_inject: "json_of_step s = json_of_step t \<longleftrightarrow> s = t"
proof -
  have "inj json_of_answer"
    by (simp add: inj_def json_of_answer_inject)
  then show ?thesis
    by (cases s; cases t) (auto simp: json_of_step_def inj_map_eq_map)
qed

lemma json_of_graph_inject: "json_of_graph g = json_of_graph h \<longleftrightarrow> g = h"
proof -
  have "inj (\<lambda>kv :: jsstring \<times> TroubleshootingStepData. (fst kv, json_of_step (snd kv)))"
    by (auto simp: inj_def json_of_step_inject)
  then show ?thesis
    by (simp add: json_of_graph_def inj_map_eq_map)
qed

section \<open>Loading and saving\<close>

lemma loadData_adopts_parsed_value:
  "LocalStorage st (str ''troubleshootingData'') = Some t \<Longrightarrow> t \<noteq> [] \<Longrightarrow>
     JSON_parse t = Inr v \<Longrightarrow>
     loadData True st = st\<lparr>isLoading := False, troubleshootingData := v\<rparr>"
  by (simp add: loadData_def loadData_try_def getItem_def truthy_def Let_def)

lemma loadData_read_failure:
  "loadData False st =
     st\<lparr>isLoading := False,
        troubleshootingData := json_of_graph initialTroubleshootingData,
        toasts := toasts st @ [\<lparr>style = Failure,
                                toast_title = str ''Could not load custom flow'',
                                message = str ''Using default flow.''\<rparr>]\<rparr>"
  by (simp add: loadData_def loadData_try_def getItem_def showToast_def Let_def)

lemma Serialize_nonempty: "plain v \<Longrightarrow> SerializeJSONProperty gap indent v \<noteq> []"
  using Serialize_start [of v gap indent] by auto

lemma load_after_save:
  "valid_graph g \<Longrightarrow>
     troubleshootingData
       (loadData True (initial_app (LocalStorage (snd (handleSave True (json_of_graph g) st))))) =
     json_of_graph g"
  by (simp add: handleSave_def setItem_def showToast_def Let_def initial_app_def loadData_def
      loadData_try_def getItem_def truthy_def JSON_stringify_def Serialize_nonempty plain_graph
      JSON_parse_Serialize)

section \<open>The claims\<close>

text \<open>
  C1, as amended. \<open>handleSave\<close> sets the in-memory graph to the candidate before it
  attempts the write. When the write fails the promise is rejected, the in-memory graph
  stays the candidate, no toast is shown and the storage is as before, so that a load
  on a restart gives what it gave before the save. When the write succeeds the storage
  holds the serialized candidate, the success toast is shown and the flow tab is active.
\<close>

theorem handleSave_sets_graph_before_write:
  "handleSave False candidate st = (Inl StorageError, st\<lparr>troubleshootingData := candidate\<rparr>) \<and>
   loadData ok (initial_app (LocalStorage (snd (handleSave False candidate st)))) =
     loadData ok (initial_app (LocalStorage st)) \<and>
   handleSave True candidate st =
     (Inr (),
      st\<lparr>activeTab := str ''flow'', troubleshootingData := candidate,
         LocalStorage := (LocalStorage st)(str ''troubleshootingData'' \<mapsto> JSON_stringify candidate),
         toasts := toasts st @ [\<lparr>style = Success, toast_title = str ''Flow Saved!'',
                                 message = str ''Your changes have been saved.''\<rparr>]\<rparr>)"
  by (simp add: handleSave_def setItem_def showToast_def Let_def)

text \<open>
  C1 as stated fails: after a save whose write failed, the in-memory graph is the
  candidate (here the empty object), not the default graph that was canonical before.
\<close>

theorem handleSave_failed_write_counterexample:
  "troubleshootingData loaded_default = json_of_graph initialTroubleshootingData \<and>
   fst (handleSave False (JObject []) loaded_default) = Inl StorageError \<and>
   troubleshootingData (snd (handleSave False (JObject []) loaded_default)) = JObject [] \<and>
   JObject [] \<noteq> json_of_graph initialTroubleshootingData \<and>
   toasts (snd (handleSave False (JObject []) loaded_default)) = toasts loaded_default"
  by (simp add: loaded_default_def loadData_def loadData_try_def getItem_def truthy_def
      initial_app_def handleSave_def setItem_def Let_def json_of_graph_def
      initialTroubleshootingData_def)

text \<open>
  C2, as amended. For every load, whether the read of the slot succeeds or not: when
  the slot is absent or holds the empty string, \<open>loadData\<close> gives the default graph;
  when the slot holds a non-empty text that \<open>JSON.parse\<close> rejects, it gives the
  default graph and shows exactly one failure toast.
\<close>

theorem loadData_fallback:
  "(LocalStorage st (str ''troubleshootingData'') = None \<or>
    LocalStorage st (str ''troubleshootingData'') = Some [] \<longrightarrow>
      troubleshootingData (loadData ok st) = json_of_graph initialTroubleshootingData \<and>
      toasts (loadData ok st) =
        toasts st @ (if ok then []
                     else [\<lparr>style = Failure, toast_title = str ''Could not load custom flow'',
                            message = str ''Using default flow.''\<rparr>])) \<and>
   (LocalStorage st (str ''troubleshootingData'') = Some t \<and> t \<noteq> [] \<and>
    JSON_parse t = Inl e \<longrightarrow>
      loadData ok st =
        st\<lparr>isLoading := False,
           troubleshootingData := json_of_graph initialTroubleshootingData,
           toasts := toasts st @ [\<lparr>style = Failure,
                                   toast_title = str ''Could not load custom flow'',
                                   message = str ''Using default flow.''\<rparr>]\<rparr>)"
  by (cases ok)
    (auto simp: loadData_def loadData_try_def getItem_def truthy_def showToast_def Let_def)

theorem loadData_fallback_witness:
  "troubleshootingData (loadData True (initial_app Map.empty)) =
     json_of_graph initialTroubleshootingData \<and>
   toasts (loadData True (initial_app Map.empty)) = [] \<and>
   troubleshootingData (loadData False (initial_app [str ''troubleshootingData'' \<mapsto> []])) =
     json_of_graph initialTroubleshootingData \<and>
   toasts (loadData False (initial_app [str ''troubleshootingData'' \<mapsto> []])) =
     [\<lparr>style = Failure, toast_title = str ''Could not load custom flow'',
       message = str ''Using default flow.''\<rparr>] \<and>
   loadData True (initial_app [str ''troubleshootingData'' \<mapsto> str ''{oops'']) =
     (initial_app [str ''troubleshootingData'' \<mapsto> str ''{oops''])\<lparr>isLoading := False,
        troubleshootingData := json_of_graph initialTroubleshootingData,
        toasts := [\<lparr>style = Failure, toast_title = str ''Could not load custom flow'',
                    message = str ''Using default flow.''\<rparr>]\<rparr>"
proof -
  have p: "JSON_parse (str ''{oops'') = Inl SyntaxError"
    by (simp add: JSON_parse_def str_def parse_value_Cons is_ws_def skip_ws_def
        parse_members.simps)
  have n: "str ''{oops'' \<noteq> []"
    by (simp add: str_def)
  show ?thesis
    using loadData_fallback [of "initial_app Map.empty" True]
      loadData_fallback [of "initial_app [str ''troubleshootingData'' \<mapsto> []]" False]
      loadData_fallback [of "initial_app [str ''troubleshootingData'' \<mapsto> str ''{oops'']"
        True "str ''{oops''" SyntaxError] p n
    by (simp add: initial_app_def)
qed

text \<open>
  C2 as stated fails, at two slots. A slot that holds the empty string is present and
  its text does not parse, yet \<open>loadData\<close> shows no toast. A slot that holds \<open>null\<close>
  is present and its text is not a graph, yet \<open>loadData\<close> adopts the value: it neither
  gives the default graph nor shows a toast.
\<close>

theorem loadData_present_slot_counterexample:
  "JSON_parse [] = Inl SyntaxError \<and>
   troubleshootingData (loadData True (initial_app [str ''troubleshootingData'' \<mapsto> []])) =
     json_of_graph initialTroubleshootingData \<and>
   toasts (loadData True (initial_app [str ''troubleshootingData'' \<mapsto> []])) = [] \<and>
   JSON_parse (str ''null'') = Inr JNull \<and>
   JNull \<notin> range json_of_graph \<and>
   troubleshootingData
     (loadData True (initial_app [str ''troubleshootingData'' \<mapsto> str ''null''])) = JNull \<and>
   toasts (loadData True (initial_app [str ''troubleshootingData'' \<mapsto> str ''null''])) = []"
proof -
  have e: "JSON_parse [] = Inl SyntaxError"
    by (simp add: JSON_parse_def parse_value.simps skip_ws_def)
  have n: "JSON_parse (str ''null'') = Inr JNull"
    using parse_value_null [of "[]"] by (simp add: JSON_parse_def skip_ws_def)
  have g: "JNull \<notin> range json_of_graph"
    by (auto simp: json_of_graph_def)
  have s: "str ''null'' \<noteq> []"
    by (simp add: str_def)
  show ?thesis
    using e n g s
    by (simp add: loadData_def loadData_try_def getItem_def truthy_def initial_app_def Let_def)
qed

text \<open>
  C3. For every graph with distinct keys, parsing the text the editor opens with gives
  back the graph: the same keys in the same order, and under each key the same step
  (by \<open>json_of_graph_inject\<close> the value determines the graph).
\<close>

theorem editor_text_roundtrip:
  "valid_graph g \<Longrightarrow>
     JSON_parse (EditorView_defaultValue (json_of_graph g)) = Inr (json_of_graph g)"
  by (simp add: EditorView_defaultValue_def JSON_stringify_indent2_def JSON_parse_Serialize
      plain_graph str_def is_ws_def)

theorem editor_text_roundtrip_witness:
  "valid_graph initialTroubleshootingData \<and>
   JSON_parse (EditorView_defaultValue (json_of_graph initialTroubleshootingData)) =
     Inr (json_of_graph initialTroubleshootingData)"
proof -
  have v: "valid_graph initialTroubleshootingData"
    by (simp add: valid_graph_def initialTroubleshootingData_def mk_step_def str_def)
  from v editor_text_roundtrip [OF v] show ?thesis by simp
qed

text \<open>
  C4 fails on the code. The only answer of \<open>dangling_graph\<close> leads to the step
  \<open>constructor\<close>. The graph has no such entry, but the property read finds the
  inherited \<open>Object.prototype.constructor\<close>: the end-of-flow branch is skipped and
  rendering raises a TypeError. (For an identifier that is neither a key of the graph
  nor the name of an inherited property, \<open>missing_step_end_of_flow\<close> gives the
  end-of-flow view.)
\<close>

theorem inherited_step_raises:
  "map_of dangling_graph (str ''constructor'') = None \<and>
   map (\<lambda>s. map selectAnswer (answers s)) (map snd dangling_graph) =
     [[Push (str ''constructor'')]] \<and>
   TroubleshootingStep Icon chevron (str ''constructor'') dangling_graph False = Inl TypeError"
  by (simp add: dangling_graph_def mk_step_def mk_answer_def str_def selectAnswer_def truthy_def
      TroubleshootingStep_def get_property_def Object_prototype_keys_def)

text \<open>
  C5, as amended. The action of an answer is a function of the answer alone: it is
  "push the step \<open>nextId\<close>" when \<open>nextId\<close> is a non-empty string, and "copy the
  resolution text" when \<open>nextId\<close> is absent or the empty string.
\<close>

theorem selectAnswer_by_truthiness:
  "selectAnswer a =
     (case nextId a of
        None \<Rightarrow> CopyToClipboard (replace_prefix (str ''Solution: '') [] (text' a))
      | Some n \<Rightarrow>
          if n = [] then CopyToClipboard (replace_prefix (str ''Solution: '') [] (text' a))
          else Push n)"
  by (simp add: selectAnswer_def truthy_def split: option.splits)

text \<open>
  C5 as stated fails: the answer below has a \<open>nextId\<close>, the empty string, and its
  action is not a navigation.
\<close>

theorem selectAnswer_present_nextId_counterexample:
  "nextId \<lparr>text' = str ''Restart it'', nextId = Some [], icon = None\<rparr> = Some [] \<and>
   selectAnswer \<lparr>text' = str ''Restart it'', nextId = Some [], icon = None\<rparr> \<noteq> Push []"
  by (simp add: selectAnswer_def truthy_def)

text \<open>
  C6. When the text of the editor does not parse, \<open>handleSubmit\<close> changes nothing but
  the toasts, to which it adds one failure toast: the graph and the storage are as
  before, the tab and the navigation stack are untouched and the text is still there.
\<close>

theorem handleSubmit_parse_failure:
  "JSON_parse (jsonData st) = Inl e \<Longrightarrow>
     handleSubmit ok st =
       st\<lparr>toasts := toasts st @ [\<lparr>style = Failure, toast_title = str ''Invalid JSON'',
                                  message = str ''Please check your syntax.''\<rparr>]\<rparr>"
  by (simp add: handleSubmit_def showToast_def)

theorem handleSubmit_parse_failure_witness:
  "JSON_parse (jsonData (loaded_default\<lparr>activeTab := str ''editor'', jsonData := str ''{oops''\<rparr>)) =
     Inl SyntaxError \<and>
   handleSubmit True (loaded_default\<lparr>activeTab := str ''editor'', jsonData := str ''{oops''\<rparr>) =
     loaded_default\<lparr>activeTab := str ''editor'', jsonData := str ''{oops'',
       toasts := toasts loaded_default @ [\<lparr>style = Failure, toast_title = str ''Invalid JSON'',
                                  message = str ''Please check your syntax.''\<rparr>]\<rparr>"
proof -
  have p: "JSON_parse (str ''{oops'') = Inl SyntaxError"
    by (simp add: JSON_parse_def str_def parse_value_Cons is_ws_def skip_ws_def
        parse_members.simps)
  show ?thesis
    using handleSubmit_parse_failure
      [of "loaded_default\<lparr>activeTab := str ''editor'', jsonData := str ''{oops''\<rparr>"
        SyntaxError True] p
    by simp
qed

text \<open>
  C7. For an answer that does not navigate, the text to copy is the answer's text
  without the leading \<open>Solution: \<close> when the text starts with it, and the text as it
  is otherwise.
\<close>

theorem copy_strips_leading_tag:
  "\<not> truthy (nextId a) \<Longrightarrow>
     selectAnswer a =
       CopyToClipboard
         (if prefix (str ''Solution: '') (text' a)
          then drop (length (str ''Solution: '')) (text' a) else text' a)"
  by (simp add: selectAnswer_def replace_prefix_prefix)

theorem copy_strips_leading_tag_witness:
  "\<not> truthy (nextId (mk_answer ''Solution: Solution: reboot'' None ''Wrench'')) \<and>
   selectAnswer (mk_answer ''Solution: Solution: reboot'' None ''Wrench'') =
     CopyToClipboard (str ''Solution: reboot'') \<and>
   \<not> truthy (nextId (mk_answer ''No Solution: here'' None ''Check'')) \<and>
   selectAnswer (mk_answer ''No Solution: here'' None ''Check'') =
     CopyToClipboard (str ''No Solution: here'')"
proof -
  have t: "\<not> truthy (nextId (mk_answer ''Solution: Solution: reboot'' None ''Wrench''))"
    "\<not> truthy (nextId (mk_answer ''No Solution: here'' None ''Check''))"
    by (simp_all add: mk_answer_def truthy_def)
  have p: "prefix (str ''Solution: '') (str ''Solution: Solution: reboot'')"
    "\<not> prefix (str ''Solution: '') (str ''No Solution: here'')"
    by (simp_all add: str_def)
  show ?thesis
    using copy_strips_leading_tag [OF t(1)] copy_strips_leading_tag [OF t(2)] t p
    by (simp add: mk_answer_def) (simp add: str_def)
qed

text \<open>
  C8. In the default graph the step \<open>log-errors\<close> renders as a list of exactly one
  answer, and the action of that answer copies the text without its tag.
\<close>

theorem default_log_errors_view:
  "TroubleshootingStep Icon chevron (str ''log-errors'') initialTroubleshootingData False =
     Inr (StepList (str ''Common errors include 'Permission Denied' or 'Port in Use'.'')
       [\<lparr>title = str ''Solution: Check file permissions or kill the process on that port.'',
         item_icon = symbolFor Icon chevron (Some (str ''Wrench'')),
         actions = CopyToClipboard
           (str ''Check file permissions or kill the process on that port.'')\<rparr>])"
  by (simp add: initialTroubleshootingData_def mk_step_def mk_answer_def str_def
      TroubleshootingStep_def get_property_def render_answer_def selectAnswer_def truthy_def
      replace_prefix_def)

text \<open>
  C9 fails on the code. The action of an answer does not depend on its icon
  (\<open>icon_does_not_affect_action\<close>), and an absent, empty or unknown name gives the
  default symbol (\<open>symbolFor_absent\<close>, \<open>symbolFor_unknown\<close>). But for the unrecognized
  name \<open>constructor\<close>, which no icon has, \<open>Icon[answer.icon]\<close> is the inherited
  \<open>Object.prototype.constructor\<close>: it is truthy, so the fallback of \<open>||\<close> is not
  taken and the item's icon is that function, not \<open>Icon.ChevronRight\<close>.
\<close>

theorem inherited_icon_name_not_default:
  "map_of Icon (str ''constructor'') = None \<Longrightarrow>
     symbolFor Icon chevron (Some (str ''constructor'')) = InheritedProperty \<and>
     symbolFor Icon chevron (Some (str ''constructor'')) \<noteq> Symbol chevron \<and>
     item_icon (render_answer Icon chevron
        \<lparr>text' = str ''Go on'', nextId = None, icon = Some (str ''constructor'')\<rparr>) =
       InheritedProperty"
  by (simp add: render_answer_def symbolFor_def truthy_def get_property_def
      Object_prototype_keys_def str_def)

theorem inherited_icon_name_not_default_witness:
  "map_of [(str ''ChevronRight'', str ''chevron-right-16''), (str ''Wrench'', str ''wrench-16'')]
     (str ''constructor'') = None \<and>
   symbolFor [(str ''ChevronRight'', str ''chevron-right-16''), (str ''Wrench'', str ''wrench-16'')]
     (str ''chevron-right-16'') (Some (str ''constructor'')) = InheritedProperty \<and>
   symbolFor [(str ''ChevronRight'', str ''chevron-right-16''), (str ''Wrench'', str ''wrench-16'')]
     (str ''chevron-right-16'') (Some (str ''constructor'')) \<noteq> Symbol (str ''chevron-right-16'')"
proof -
  have n: "map_of [(str ''ChevronRight'', str ''chevron-right-16''),
      (str ''Wrench'', str ''wrench-16'')] (str ''constructor'') = None"
    by (simp add: str_def)
  from n inherited_icon_name_not_default [OF n, of "str ''chevron-right-16''"]
  show ?thesis by simp
qed

text \<open>
  C10. An answer whose \<open>nextId\<close> is the empty string does not navigate: its action
  copies the resolution text.
\<close>

theorem empty_nextId_copies:
  "selectAnswer (a\<lparr>nextId := Some []\<rparr>) =
     CopyToClipboard (replace_prefix (str ''Solution: '') [] (text' a))"
  by (simp add: selectAnswer_def truthy_def)

end
